theory Spec2Isabelle
  imports Main "HOL-Library.Word"
begin

section \<open>Data model of \<open>mp4/mediasegment.go\<close>\<close>

type_synonym u8 = "8 word"
type_synonym u32 = "32 word"
type_synonym u64 = "64 word"

text \<open>
  A Go pointer to a box is an address or nil. Two pointers denote the same box instance
  exactly when they are equal; \<open>None\<close> is nil.
\<close>

type_synonym styp_ptr = "nat option"
type_synonym sidx_ptr = "nat option"

text \<open>
  Go errors. \<open>Errorf\<close> carries the formatted message of \<open>fmt.Errorf\<close>,
  \<open>Wrapf\<close> is \<open>fmt.Errorf\<close> with the verb \<open>%w\<close> (the prefix and the wrapped
  error), \<open>RuntimePanic\<close> is a run-time panic (index out of range, nil dereference).
\<close>

datatype error = Errorf string | Wrapf string error | RuntimePanic string

text \<open>
  Modelled from the spec: the type \<open>EncOptimize\<close> is declared outside this file; the
  spec calls it an "enumerated strategy (none / optimized)". The source names
  \<open>OptimizeNone\<close>.
\<close>

datatype EncOptimize = OptimizeNone | OptimizeTrun

text \<open>
  Modelled from the spec: \<open>FullSample\<close> is declared outside this file; the spec lists
  "duration, size, flags, payload reference". The source reads the field \<open>Dur\<close>, a
  \<open>uint32\<close>.
\<close>

record FullSample =
  SampleFlags :: u32
  Dur :: u32
  SampleSize :: u32
  SampleData :: "u8 list"

text \<open>
  Modelled from the spec: \<open>Fragment\<close> is declared outside this file. The record holds
  what this file reads or writes of a fragment: the sequence number
  (\<open>Moof.Mfhd.SequenceNumber\<close>), the track id (\<open>Moof.Traf.Tfhd.TrackID\<close>), the
  optimization flag (\<open>EncOptimize\<close>), and the samples the fragment carries, each with
  the track it was appended to, in append order. Fragments are held by value: a fragment
  of a list stands for the object the Go pointer at that position refers to, and the
  pointers of a list are taken to be non-nil and to refer to different objects.
\<close>

record Fragment =
  SequenceNumber :: u32
  TrackID :: u32
  FragEncOptimize :: EncOptimize
  Samples :: "(u32 \<times> FullSample) list"

record MediaSegment =
  Styp :: styp_ptr
  Sidx :: sidx_ptr
  SidxsByFrag :: "sidx_ptr list list"
  Fragments :: "Fragment list"
  EncOptimize :: EncOptimize
  StartPos :: u64

section \<open>Constructors\<close>

text \<open>Fields a Go composite literal leaves out hold their zero value.\<close>

definition NewMediaSegmentWithStyp :: "styp_ptr \<Rightarrow> MediaSegment" where
  "NewMediaSegmentWithStyp styp =
     \<lparr>Styp = styp, Sidx = None, SidxsByFrag = [], Fragments = [],
      EncOptimize = OptimizeNone, StartPos = 0\<rparr>"

definition NewMediaSegmentWithoutStyp :: MediaSegment where
  "NewMediaSegmentWithoutStyp =
     \<lparr>Styp = None, Sidx = None, SidxsByFrag = [], Fragments = [],
      EncOptimize = OptimizeNone, StartPos = 0\<rparr>"

text \<open>\<open>CreateStyp\<close> is defined outside this file; its result is a parameter.\<close>

definition NewMediaSegment :: "styp_ptr \<Rightarrow> MediaSegment" where
  "NewMediaSegment CreateStyp =
     \<lparr>Styp = CreateStyp, Sidx = None, SidxsByFrag = [], Fragments = [],
      EncOptimize = OptimizeNone, StartPos = 0\<rparr>"

section \<open>Mutation: \<open>AddSidx\<close> and \<open>AddFragment\<close>\<close>

text \<open>
  \<open>AddSidx\<close> indexes \<open>SidxsByFrag\<close> at \<open>len(s.Fragments)\<close>; Go panics when
  that index is out of range, which happens when the segment has fewer buckets than
  fragments.
\<close>

definition AddSidx :: "MediaSegment \<Rightarrow> sidx_ptr \<Rightarrow> error + MediaSegment" where
  "AddSidx s sidx =
     (let s1 = (if Sidx s = None then s\<lparr>Sidx := sidx\<rparr> else s);
          s2 = (if length (SidxsByFrag s1) = length (Fragments s1)
                then s1\<lparr>SidxsByFrag := SidxsByFrag s1 @ [[]]\<rparr> else s1);
          n = length (Fragments s2)
      in if n < length (SidxsByFrag s2)
         then Inr (s2\<lparr>SidxsByFrag := (SidxsByFrag s2)[n := SidxsByFrag s2 ! n @ [sidx]]\<rparr>)
         else Inl (RuntimePanic ''index out of range''))"

definition AddFragment :: "MediaSegment \<Rightarrow> Fragment \<Rightarrow> MediaSegment" where
  "AddFragment s f =
     (let s1 = s\<lparr>Fragments := Fragments s @ [f]\<rparr>
      in if length (SidxsByFrag s1) < length (Fragments s1)
         then s1\<lparr>SidxsByFrag := SidxsByFrag s1 @ [[]]\<rparr> else s1)"

text \<open>A sequence of calls on one segment; a panic ends it.\<close>

datatype call = CallAddSidx sidx_ptr | CallAddFragment Fragment

fun run_calls :: "MediaSegment \<Rightarrow> call list \<Rightarrow> error + MediaSegment" where
  "run_calls s [] = Inr s"
| "run_calls s (CallAddSidx p # cs) =
     (case AddSidx s p of Inl e \<Rightarrow> Inl e | Inr s' \<Rightarrow> run_calls s' cs)"
| "run_calls s (CallAddFragment f # cs) = run_calls (AddFragment s f) cs"

text \<open>The first non-nil pointer of a list of box pointers, nil when there is none.\<close>

fun first_sidx :: "sidx_ptr list \<Rightarrow> sidx_ptr" where
  "first_sidx [] = None"
| "first_sidx (p # ps) = (if p \<noteq> None then p else first_sidx ps)"

definition bucket_inv :: "MediaSegment \<Rightarrow> bool" where
  "bucket_inv s \<longleftrightarrow>
     length (SidxsByFrag s) = length (Fragments s) \<or>
     length (SidxsByFrag s) = length (Fragments s) + 1"

definition sidx_inv :: "MediaSegment \<Rightarrow> bool" where
  "sidx_inv s \<longleftrightarrow> bucket_inv s \<and> Sidx s = first_sidx (concat (SidxsByFrag s))"


section \<open>Size, Encode, EncodeSW and Info\<close>

text \<open>
  The methods of the segment-type box, the index box and the fragment (\<open>Size\<close>,
  \<open>Encode\<close>, \<open>EncodeSW\<close>, \<open>Info\<close>) are defined outside this file. They are
  parameters here. A method of the segment-type box is called on a non-nil pointer only,
  so it takes the address; a method of an index box is called on whatever pointer the
  bucket holds. A writing method takes the state of the writer and returns the error
  (\<open>None\<close> is Go's nil error) and the state it leaves the writer in.
\<close>

record size_ops =
  StypSize :: "nat \<Rightarrow> u64"
  SidxSize :: "sidx_ptr \<Rightarrow> u64"
  FragSize :: "Fragment \<Rightarrow> u64"

record 'w write_ops =
  StypWrite :: "nat \<Rightarrow> 'w \<Rightarrow> error option \<times> 'w"
  SidxWrite :: "sidx_ptr \<Rightarrow> 'w \<Rightarrow> error option \<times> 'w"
  FragWrite :: "Fragment \<Rightarrow> 'w \<Rightarrow> error option \<times> 'w"


subsection \<open>Size\<close>

text \<open>The inner loop of \<open>Size\<close>, over the index boxes of one bucket; \<open>sz\<close> is the
  variable \<open>size\<close> of the source.\<close>

fun size_sidxs :: "size_ops \<Rightarrow> sidx_ptr list \<Rightarrow> u64 \<Rightarrow> u64" where
  "size_sidxs ops [] sz = sz"
| "size_sidxs ops (sidx # rest) sz = size_sidxs ops rest (sz + SidxSize ops sidx)"

text \<open>
  The outer loop, over the fragments from index \<open>i\<close> on. \<open>s.SidxsByFrag[i]\<close> panics
  when the segment has no bucket \<open>i\<close>.
\<close>

fun size_frags :: "size_ops \<Rightarrow> sidx_ptr list list \<Rightarrow> nat \<Rightarrow> Fragment list \<Rightarrow> u64 \<Rightarrow> error + u64" where
  "size_frags ops sbf i [] sz = Inr sz"
| "size_frags ops sbf i (f # rest) sz =
     (if i < length sbf
      then size_frags ops sbf (Suc i) rest (size_sidxs ops (sbf ! i) sz + FragSize ops f)
      else Inl (RuntimePanic ''index out of range''))"

definition Size :: "size_ops \<Rightarrow> MediaSegment \<Rightarrow> error + u64" where
  "Size ops s =
     (let sz = (case Styp s of None \<Rightarrow> 0 | Some styp \<Rightarrow> 0 + StypSize ops styp)
      in size_frags ops (SidxsByFrag s) 0 (Fragments s) sz)"

subsection \<open>Encode and EncodeSW\<close>

text \<open>The inner loop: the index boxes of one bucket, stopping at the first error.\<close>

fun encode_sidxs :: "'w write_ops \<Rightarrow> sidx_ptr list \<Rightarrow> 'w \<Rightarrow> error option \<times> 'w" where
  "encode_sidxs ops [] w = (None, w)"
| "encode_sidxs ops (sidx # rest) w =
     (case SidxWrite ops sidx w of
        (Some err, w') \<Rightarrow> (Some err, w')
      | (None, w') \<Rightarrow> encode_sidxs ops rest w')"

text \<open>
  The outer loop, over the fragments from index \<open>i\<close> on. It assigns the segment's
  \<open>EncOptimize\<close> to the fragment before it encodes it, so it returns the fragments
  as it leaves them, besides the error and the writer.
\<close>

fun encode_frags ::
  "'w write_ops \<Rightarrow> sidx_ptr list list \<Rightarrow> EncOptimize \<Rightarrow> nat \<Rightarrow> Fragment list \<Rightarrow> 'w \<Rightarrow>
   error option \<times> Fragment list \<times> 'w" where
  "encode_frags ops sbf eo i [] w = (None, [], w)"
| "encode_frags ops sbf eo i (f # rest) w =
     (if i < length sbf then
        (case encode_sidxs ops (sbf ! i) w of
           (Some err, w1) \<Rightarrow> (Some err, f # rest, w1)
         | (None, w1) \<Rightarrow>
             (let f' = f\<lparr>FragEncOptimize := eo\<rparr> in
              case FragWrite ops f' w1 of
                (Some err, w2) \<Rightarrow> (Some err, f' # rest, w2)
              | (None, w2) \<Rightarrow>
                  (case encode_frags ops sbf eo (Suc i) rest w2 of
                     (r, rest', w3) \<Rightarrow> (r, f' # rest', w3))))
      else (Some (RuntimePanic ''index out of range''), f # rest, w))"

text \<open>\<open>Encode\<close> writes through an \<open>io.Writer\<close>, whose state is \<open>'w\<close>.\<close>

definition Encode ::
  "'w write_ops \<Rightarrow> MediaSegment \<Rightarrow> 'w \<Rightarrow> error option \<times> MediaSegment \<times> 'w" where
  "Encode ops s w =
     (case (case Styp s of None \<Rightarrow> (None, w) | Some styp \<Rightarrow> StypWrite ops styp w) of
        (Some err, w1) \<Rightarrow> (Some err, s, w1)
      | (None, w1) \<Rightarrow>
          (case encode_frags ops (SidxsByFrag s) (EncOptimize s) 0 (Fragments s) w1 of
             (r, fs, w2) \<Rightarrow> (r, s\<lparr>Fragments := fs\<rparr>, w2)))"

text \<open>\<open>EncodeSW\<close> writes through a \<open>bits.SliceWriter\<close>, whose state is \<open>'w\<close>.\<close>

definition EncodeSW ::
  "'w write_ops \<Rightarrow> MediaSegment \<Rightarrow> 'w \<Rightarrow> error option \<times> MediaSegment \<times> 'w" where
  "EncodeSW ops s sw =
     (case (case Styp s of None \<Rightarrow> (None, sw) | Some styp \<Rightarrow> StypWrite ops styp sw) of
        (Some err, sw1) \<Rightarrow> (Some err, s, sw1)
      | (None, sw1) \<Rightarrow>
          (case encode_frags ops (SidxsByFrag s) (EncOptimize s) 0 (Fragments s) sw1 of
             (r, fs, sw2) \<Rightarrow> (r, s\<lparr>Fragments := fs\<rparr>, sw2)))"

subsection \<open>Info\<close>




subsection \<open>The order of the boxes, in the spec's words\<close>

text \<open>
  The spec: "If a segment-type box is present, apply the operation to it first. For each
  fragment index i in order: apply the operation to every index box in
  index_boxes_by_fragment[i] (in append order), then to the fragment itself."
\<close>

datatype box = StypBox nat | SidxBox sidx_ptr | FragmentBox Fragment

definition frag_boxes :: "sidx_ptr list list \<Rightarrow> nat \<Rightarrow> Fragment list \<Rightarrow> box list" where
  "frag_boxes sbf i fs =
     concat (map (\<lambda>(j, f). map SidxBox (sbf ! j) @ [FragmentBox f]) (enumerate i fs))"

definition boxes_in_order :: "MediaSegment \<Rightarrow> box list" where
  "boxes_in_order s =
     (case Styp s of None \<Rightarrow> [] | Some styp \<Rightarrow> [StypBox styp]) @
     frag_boxes (SidxsByFrag s) 0 (Fragments s)"

fun box_size :: "size_ops \<Rightarrow> box \<Rightarrow> u64" where
  "box_size ops (StypBox a) = StypSize ops a"
| "box_size ops (SidxBox p) = SidxSize ops p"
| "box_size ops (FragmentBox f) = FragSize ops f"

fun box_write :: "'w write_ops \<Rightarrow> box \<Rightarrow> 'w \<Rightarrow> error option \<times> 'w" where
  "box_write ops (StypBox a) w = StypWrite ops a w"
| "box_write ops (SidxBox p) w = SidxWrite ops p w"
| "box_write ops (FragmentBox f) w = FragWrite ops f w"


text \<open>One operation applied to a list of boxes in order, stopping at the first error.\<close>

fun run_boxes :: "(box \<Rightarrow> 'w \<Rightarrow> error option \<times> 'w) \<Rightarrow> box list \<Rightarrow> 'w \<Rightarrow> error option \<times> 'w" where
  "run_boxes op [] w = (None, w)"
| "run_boxes op (b # bs) w =
     (case op b w of (Some err, w') \<Rightarrow> (Some err, w') | (None, w') \<Rightarrow> run_boxes op bs w')"

text \<open>The segment with its \<open>EncOptimize\<close> written to every fragment.\<close>

definition project_flags :: "MediaSegment \<Rightarrow> MediaSegment" where
  "project_flags s =
     s\<lparr>Fragments := map (\<lambda>f. f\<lparr>FragEncOptimize := EncOptimize s\<rparr>) (Fragments s)\<rparr>"

subsection \<open>Box methods for the examples\<close>

text \<open>
  A writer that counts the bytes it was given. The segment-type box takes 24 bytes, an
  index box 44, and a fragment 100, or 80 when its optimization flag is set.
\<close>

definition demo_sizes :: size_ops where
  "demo_sizes =
     \<lparr>StypSize = (\<lambda>a. 24), SidxSize = (\<lambda>p. 44),
      FragSize = (\<lambda>f. if FragEncOptimize f = OptimizeTrun then 80 else 100)\<rparr>"

definition demo_writes :: "nat write_ops" where
  "demo_writes =
     \<lparr>StypWrite = (\<lambda>a w. (None, w + 24)), SidxWrite = (\<lambda>p w. (None, w + 44)),
      FragWrite = (\<lambda>f w. (None, w + (if FragEncOptimize f = OptimizeTrun then 80 else 100)))\<rparr>"



definition demo_fragment :: "u32 \<Rightarrow> Fragment" where
  "demo_fragment n =
     \<lparr>SequenceNumber = n, TrackID = 1, FragEncOptimize = OptimizeNone, Samples = []\<rparr>"

definition demo_segment :: MediaSegment where
  "demo_segment =
     \<lparr>Styp = Some 1, Sidx = Some 5, SidxsByFrag = [[Some 5], []],
      Fragments = [demo_fragment 1, demo_fragment 2],
      EncOptimize = OptimizeTrun, StartPos = 0\<rparr>"

section \<open>Fragmentify\<close>

type_synonym trex_ptr = "nat option"

text \<open>
  The methods of a fragment that \<open>Fragmentify\<close> and \<open>CommonSampleDuration\<close> call
  are defined outside this file. What they return for a fragment is a parameter:
  the samples \<open>GetFullSamples\<close> extracts or its error, the error of
  \<open>CreateFragment\<close> and of \<open>AddFullSampleToTrack\<close> if any, and the duration
  \<open>Fragment.CommonSampleDuration\<close> reports or its error.
\<close>

record frag_ops =
  GetFullSamples :: "Fragment \<Rightarrow> trex_ptr \<Rightarrow> error + FullSample list"
  CreateFragmentErr :: "u32 \<Rightarrow> u32 \<Rightarrow> error option"
  AddFullSampleErr :: "Fragment \<Rightarrow> FullSample \<Rightarrow> u32 \<Rightarrow> error option"
  FragCommonSampleDuration :: "Fragment \<Rightarrow> trex_ptr \<Rightarrow> error + u32"

text \<open>
  Modelled from the spec: \<open>CreateFragment\<close> is defined outside this file. The spec:
  "creation (new(sequence_number, track_id))", "constructor new(sequence_number,
  track_id) -> Fragment | failure". The new fragment has the given sequence number and
  track id and no sample.
\<close>

definition CreateFragment :: "frag_ops \<Rightarrow> u32 \<Rightarrow> u32 \<Rightarrow> error + Fragment" where
  "CreateFragment ops seqNumber trackID =
     (case CreateFragmentErr ops seqNumber trackID of
        Some err \<Rightarrow> Inl err
      | None \<Rightarrow> Inr \<lparr>SequenceNumber = seqNumber, TrackID = trackID,
                     FragEncOptimize = OptimizeNone, Samples = []\<rparr>)"

text \<open>
  Modelled from the spec: \<open>AddFullSampleToTrack\<close> is defined outside this file. The
  spec: "append_full_sample_to_track(sample, track_id) -> failure|success", "Append the
  sample to the open output fragment under its track id". It returns the fragment as the
  call leaves it.
\<close>

definition AddFullSampleToTrack ::
  "frag_ops \<Rightarrow> Fragment \<Rightarrow> FullSample \<Rightarrow> u32 \<Rightarrow> error + Fragment" where
  "AddFullSampleToTrack ops f smp trackID =
     (case AddFullSampleErr ops f smp trackID of
        Some err \<Rightarrow> Inl err
      | None \<Rightarrow> Inr (f\<lparr>Samples := Samples f @ [(trackID, smp)]\<rparr>))"

text \<open>
  The inner loop of \<open>Fragmentify\<close>, over the samples of one input fragment. The
  variable \<open>of\<close> of the source points to the fragment appended last to
  \<open>outFragments\<close> (it is assigned where that fragment is appended, and nowhere else)
  and is nil while \<open>outFragments\<close> is empty; so a call on \<open>of\<close> is a call on the last
  element, and a nil dereference when there is none. \<open>cumDur\<close> is a \<open>uint32\<close>
  and wraps around.
\<close>

fun fragmentify_samples ::
  "frag_ops \<Rightarrow> Fragment \<Rightarrow> u32 \<Rightarrow> u32 \<Rightarrow> FullSample list \<Rightarrow> Fragment list \<Rightarrow> u32 \<Rightarrow>
   error + (Fragment list \<times> u32)" where
  "fragmentify_samples ops inFrag trackID duration [] outFragments cumDur =
     Inr (outFragments, cumDur)"
| "fragmentify_samples ops inFrag trackID duration (smp # samples) outFragments cumDur =
     (case (if cumDur = 0 then
              (case CreateFragment ops (SequenceNumber inFrag) trackID of
                 Inl err \<Rightarrow> Inl err
               | Inr outFrag \<Rightarrow> Inr (outFragments @ [outFrag]))
            else Inr outFragments) of
        Inl err \<Rightarrow> Inl err
      | Inr outs \<Rightarrow>
          (if outs = [] then Inl (RuntimePanic ''nil pointer dereference'')
           else
             (case AddFullSampleToTrack ops (last outs) smp trackID of
                Inl err \<Rightarrow> Inl err
              | Inr outFrag \<Rightarrow>
                  (let cumDur1 = cumDur + Dur smp;
                       cumDur2 = (if cumDur1 \<ge> duration then 0 else cumDur1)
                   in fragmentify_samples ops inFrag trackID duration samples
                        (butlast outs @ [outFrag]) cumDur2))))"

text \<open>The outer loop, over the input fragments.\<close>

fun fragmentify_frags ::
  "frag_ops \<Rightarrow> trex_ptr \<Rightarrow> u32 \<Rightarrow> Fragment list \<Rightarrow> Fragment list \<Rightarrow> u32 \<Rightarrow>
   error + (Fragment list \<times> u32)" where
  "fragmentify_frags ops trex duration [] outFragments cumDur = Inr (outFragments, cumDur)"
| "fragmentify_frags ops trex duration (inFrag # rest) outFragments cumDur =
     (let trackID = TrackID inFrag in
      case GetFullSamples ops inFrag trex of
        Inl err \<Rightarrow> Inl err
      | Inr samples \<Rightarrow>
          (case fragmentify_samples ops inFrag trackID duration samples outFragments cumDur of
             Inl err \<Rightarrow> Inl err
           | Inr (outs, cum) \<Rightarrow> fragmentify_frags ops trex duration rest outs cum))"

definition Fragmentify ::
  "frag_ops \<Rightarrow> MediaSegment \<Rightarrow> u64 \<Rightarrow> trex_ptr \<Rightarrow> u32 \<Rightarrow> error + Fragment list" where
  "Fragmentify ops s timescale trex duration =
     (case fragmentify_frags ops trex duration (Fragments s) [] 0 of
        Inl err \<Rightarrow> Inl err
      | Inr (outFragments, cumDur) \<Rightarrow> Inr outFragments)"

text \<open>The sum of the durations of the samples of a fragment, as a natural number.\<close>

definition total_dur :: "Fragment \<Rightarrow> nat" where
  "total_dur f = sum_list (map (\<lambda>x. unat (Dur (snd x))) (Samples f))"

text \<open>
  The samples \<open>GetFullSamples\<close> extracts from an input fragment, each with the track id
  of that fragment; no sample where the extraction fails.
\<close>

definition extracted :: "frag_ops \<Rightarrow> trex_ptr \<Rightarrow> Fragment \<Rightarrow> (u32 \<times> FullSample) list" where
  "extracted ops trex f =
     (case GetFullSamples ops f trex of
        Inl err \<Rightarrow> []
      | Inr samples \<Rightarrow> map (\<lambda>smp. (TrackID f, smp)) samples)"

section \<open>CommonSampleDuration\<close>

text \<open>The decimal digits of a number, as \<open>%d\<close> prints them.\<close>

fun show_nat :: "nat \<Rightarrow> string" where
  "show_nat n =
     (if n < 10 then [''0123456789'' ! n]
      else show_nat (n div 10) @ [''0123456789'' ! (n mod 10)])"

declare show_nat.simps [simp del]

text \<open>
  The loop of \<open>CommonSampleDuration\<close>, over the fragments from index \<open>i\<close> on.
\<close>

fun common_dur_frags ::
  "frag_ops \<Rightarrow> trex_ptr \<Rightarrow> nat \<Rightarrow> Fragment list \<Rightarrow> u32 \<Rightarrow> error + u32" where
  "common_dur_frags ops trex i [] commonDur = Inr commonDur"
| "common_dur_frags ops trex i (frag # rest) commonDur =
     (case FragCommonSampleDuration ops frag trex of
        Inl err \<Rightarrow> Inl (Wrapf ''fragment.CommonSampleDuration: '' err)
      | Inr cDur \<Rightarrow>
          (if i = 0 then common_dur_frags ops trex (Suc i) rest cDur
           else if commonDur \<noteq> cDur
           then Inl (Errorf (''different common sample duration in fragment '' @
                             show_nat (i + 1)))
           else common_dur_frags ops trex (Suc i) rest commonDur))"

definition CommonSampleDuration :: "frag_ops \<Rightarrow> MediaSegment \<Rightarrow> trex_ptr \<Rightarrow> error + u32" where
  "CommonSampleDuration ops s trex =
     (if trex = None then Inl (Errorf ''trex not set'')
      else common_dur_frags ops trex 0 (Fragments s) 0)"


subsection \<open>Fragment methods for the examples\<close>

text \<open>
  A fragment gives back the samples it carries; its common sample duration is the
  duration of its first sample, and an error when it has none. Nothing fails otherwise.
\<close>

definition demo_frag_ops :: frag_ops where
  "demo_frag_ops =
     \<lparr>GetFullSamples = (\<lambda>f trex. Inr (map snd (Samples f))),
      CreateFragmentErr = (\<lambda>seqNumber trackID. None),
      AddFullSampleErr = (\<lambda>f smp trackID. None),
      FragCommonSampleDuration =
        (\<lambda>f trex. case Samples f of [] \<Rightarrow> Inl (Errorf ''no samples'')
                    | x # xs \<Rightarrow> Inr (Dur (snd x)))\<rparr>"

definition demo_sample :: "u32 \<Rightarrow> FullSample" where
  "demo_sample d = \<lparr>SampleFlags = 0, Dur = d, SampleSize = 0, SampleData = []\<rparr>"

definition demo_input :: "u32 \<Rightarrow> u32 list \<Rightarrow> Fragment" where
  "demo_input n ds =
     \<lparr>SequenceNumber = n, TrackID = 1, FragEncOptimize = OptimizeNone,
      Samples = map (\<lambda>d. (1, demo_sample d)) ds\<rparr>"

text \<open>
  An output fragment is closed for the target \<open>duration\<close> when its samples last at
  least that long together, or when it is a single sample of duration zero.
\<close>

definition closed :: "u32 \<Rightarrow> Fragment \<Rightarrow> bool" where
  "closed duration f \<longleftrightarrow>
     unat duration \<le> total_dur f \<or>
     (length (Samples f) = 1 \<and> Dur (snd (hd (Samples f))) = 0)"

text \<open>
  What holds of \<open>outFragments\<close> and \<open>cumDur\<close> between two samples: every output
  fragment has a sample, every one but the last is closed, and the last is closed when
  \<open>cumDur\<close> is zero and has run for at least \<open>cumDur\<close> otherwise.
\<close>

definition frag_inv :: "u32 \<Rightarrow> Fragment list \<Rightarrow> u32 \<Rightarrow> bool" where
  "frag_inv duration outs cumDur \<longleftrightarrow>
     list_all (\<lambda>f. Samples f \<noteq> []) outs \<and>
     list_all (closed duration) (butlast outs) \<and>
     (if cumDur = 0 then outs = [] \<or> closed duration (last outs)
      else outs \<noteq> [] \<and> unat cumDur \<le> total_dur (last outs))"

section \<open>Bucket bookkeeping\<close>

lemma AddFragment_bucket_inv: "bucket_inv s \<Longrightarrow> bucket_inv (AddFragment s f)"
  by (auto simp: bucket_inv_def AddFragment_def Let_def)

lemma AddSidx_bucket_inv:
  "bucket_inv s \<Longrightarrow> \<exists>s'. AddSidx s p = Inr s' \<and> bucket_inv s'"
  by (auto simp: bucket_inv_def AddSidx_def Let_def)

lemma run_calls_bucket_inv:
  "bucket_inv s \<Longrightarrow> \<exists>s'. run_calls s cs = Inr s' \<and> bucket_inv s'"
proof (induction cs arbitrary: s)
  case Nil
  then show ?case by simp
next
  case (Cons c cs)
  show ?case
  proof (cases c)
    case (CallAddSidx p)
    from AddSidx_bucket_inv [OF Cons.prems, of p]
    obtain s1 where s1: "AddSidx s p = Inr s1" "bucket_inv s1" by blast
    from Cons.IH [OF s1(2)] s1(1) CallAddSidx show ?thesis by simp
  next
    case (CallAddFragment f)
    from Cons.IH [OF AddFragment_bucket_inv [OF Cons.prems, of f]] CallAddFragment
    show ?thesis by simp
  qed
qed

lemma NewMediaSegmentWithoutStyp_eq:
  "NewMediaSegmentWithoutStyp = NewMediaSegmentWithStyp None"
  by (simp add: NewMediaSegmentWithoutStyp_def NewMediaSegmentWithStyp_def)

lemma NewMediaSegment_eq: "NewMediaSegment p = NewMediaSegmentWithStyp p"
  by (simp add: NewMediaSegment_def NewMediaSegmentWithStyp_def)

lemma bucket_inv_empty: "bucket_inv (NewMediaSegmentWithStyp styp)"
  by (simp add: bucket_inv_def NewMediaSegmentWithStyp_def)

text \<open>
  C1. Starting from an empty segment (any of the three constructors; the other two are
  instances of \<open>NewMediaSegmentWithStyp\<close>), every sequence of \<open>AddSidx\<close> and
  \<open>AddFragment\<close> calls runs without a panic and leaves
  \<open>len(SidxsByFrag)\<close> equal to \<open>len(Fragments)\<close> or to \<open>len(Fragments) + 1\<close>. As
  the sequence is arbitrary, this holds after each call of a longer sequence.
\<close>

theorem C1_bucket_count:
  "\<exists>s. run_calls (NewMediaSegmentWithStyp styp) cs = Inr s \<and>
       (length (SidxsByFrag s) = length (Fragments s) \<or>
        length (SidxsByFrag s) = length (Fragments s) + 1)"
  using run_calls_bucket_inv [OF bucket_inv_empty, of styp cs]
  by (simp add: bucket_inv_def)

section \<open>The first index box\<close>

lemma first_sidx_append:
  "first_sidx (ps @ qs) = (if first_sidx ps \<noteq> None then first_sidx ps else first_sidx qs)"
  by (induction ps) auto

lemma concat_update_last:
  assumes "xs \<noteq> []" "n = length xs - 1"
  shows "concat (xs[n := xs ! n @ ys]) = concat xs @ ys"
proof -
  from assms(1) obtain zs z where xs: "xs = zs @ [z]"
    by (metis append_butlast_last_id)
  show ?thesis by (simp add: xs assms(2) nth_append)
qed

lemma AddFragment_sidx_inv: "sidx_inv s \<Longrightarrow> sidx_inv (AddFragment s f)"
  unfolding sidx_inv_def
  by (auto simp: AddFragment_bucket_inv) (auto simp: AddFragment_def Let_def)

lemma AddSidx_Sidx:
  "AddSidx s p = Inr s' \<Longrightarrow> Sidx s' = (if Sidx s = None then p else Sidx s)"
  by (cases "Sidx s = None") (auto simp: AddSidx_def Let_def split: if_splits)

lemma AddSidx_buckets_eq:
  "length (Fragments s) = length (SidxsByFrag s) \<Longrightarrow> AddSidx s p = Inr s' \<Longrightarrow>
   SidxsByFrag s' = SidxsByFrag s @ [[p]]"
  by (cases "Sidx s = None") (auto simp: AddSidx_def Let_def)

lemma AddSidx_buckets_more:
  "length (SidxsByFrag s) = length (Fragments s) + 1 \<Longrightarrow> AddSidx s p = Inr s' \<Longrightarrow>
   SidxsByFrag s' =
     (SidxsByFrag s)[length (Fragments s) := SidxsByFrag s ! (length (Fragments s)) @ [p]]"
  by (cases "Sidx s = None") (auto simp: AddSidx_def Let_def)

lemma AddSidx_sidx_inv:
  assumes "sidx_inv s"
  shows "\<exists>s'. AddSidx s p = Inr s' \<and> sidx_inv s'"
proof -
  from assms have b: "bucket_inv s" and f: "Sidx s = first_sidx (concat (SidxsByFrag s))"
    by (simp_all add: sidx_inv_def)
  from AddSidx_bucket_inv [OF b, of p] obtain s' where
    s': "AddSidx s p = Inr s'" "bucket_inv s'" by blast
  have c: "concat (SidxsByFrag s') = concat (SidxsByFrag s) @ [p]"
  proof (cases "length (Fragments s) = length (SidxsByFrag s)")
    case True
    from AddSidx_buckets_eq [OF True s'(1)] show ?thesis by simp
  next
    case False
    with b have l: "length (SidxsByFrag s) = length (Fragments s) + 1"
      by (auto simp: bucket_inv_def)
    then have ne: "SidxsByFrag s \<noteq> []" by auto
    from l have n: "length (Fragments s) = length (SidxsByFrag s) - 1" by simp
    from AddSidx_buckets_more [OF l s'(1)] concat_update_last [OF ne n]
    show ?thesis by simp
  qed
  have "Sidx s' = first_sidx (concat (SidxsByFrag s'))"
    by (simp add: c AddSidx_Sidx [OF s'(1)] f first_sidx_append)
  with s' show ?thesis by (auto simp: sidx_inv_def)
qed

lemma run_calls_sidx_inv:
  "sidx_inv s \<Longrightarrow> \<exists>s'. run_calls s cs = Inr s' \<and> sidx_inv s'"
proof (induction cs arbitrary: s)
  case Nil
  then show ?case by simp
next
  case (Cons c cs)
  show ?case
  proof (cases c)
    case (CallAddSidx p)
    from AddSidx_sidx_inv [OF Cons.prems, of p]
    obtain s1 where s1: "AddSidx s p = Inr s1" "sidx_inv s1" by blast
    from Cons.IH [OF s1(2)] s1(1) CallAddSidx show ?thesis by simp
  next
    case (CallAddFragment f)
    from Cons.IH [OF AddFragment_sidx_inv [OF Cons.prems, of f]] CallAddFragment
    show ?thesis by simp
  qed
qed

lemma sidx_inv_empty: "sidx_inv (NewMediaSegmentWithStyp styp)"
  by (simp add: sidx_inv_def bucket_inv_def NewMediaSegmentWithStyp_def)

lemma first_sidx_bucket0:
  assumes "bs \<noteq> []" "bs ! 0 \<noteq> []" "bs ! 0 ! 0 \<noteq> None"
  shows "first_sidx (concat bs) = bs ! 0 ! 0"
proof -
  from assms(1) obtain b bs' where bs: "bs = b # bs'" by (cases bs) auto
  with assms(2) obtain p ps where b: "b = p # ps" by (cases b) auto
  from assms(3) show ?thesis by (simp add: bs b)
qed

text \<open>
  C6, as the claim states it, fails: a box appended after the first fragment becomes
  \<open>Sidx\<close> while bucket 0 stays empty. Here one fragment is added, then the box at
  address 7.
\<close>

theorem C6_counterexample:
  "run_calls (NewMediaSegmentWithStyp None)
     [CallAddFragment \<lparr>SequenceNumber = 1, TrackID = 1,
        FragEncOptimize = OptimizeNone, Samples = []\<rparr>,
      CallAddSidx (Some 7)] =
   Inr \<lparr>Styp = None, Sidx = Some 7, SidxsByFrag = [[], [Some 7]],
        Fragments = [\<lparr>SequenceNumber = 1, TrackID = 1,
          FragEncOptimize = OptimizeNone, Samples = []\<rparr>],
        EncOptimize = OptimizeNone, StartPos = 0\<rparr>"
  by (simp add: NewMediaSegmentWithStyp_def AddFragment_def AddSidx_def Let_def)

text \<open>
  C6, amended. After any sequence of \<open>AddSidx\<close> and \<open>AddFragment\<close> calls on an
  empty segment, \<open>Sidx\<close> is the first non-nil box of the buckets read in order
  (bucket 0, then bucket 1, and so on): the first non-nil box ever appended. So whenever
  bucket 0 is non-empty and starts with a non-nil box, \<open>Sidx\<close> is that same box.
\<close>

theorem C6_first_sidx:
  "\<exists>s. run_calls (NewMediaSegmentWithStyp styp) cs = Inr s \<and>
       Sidx s = first_sidx (concat (SidxsByFrag s)) \<and>
       (SidxsByFrag s \<noteq> [] \<and> SidxsByFrag s ! 0 \<noteq> [] \<and> SidxsByFrag s ! 0 ! 0 \<noteq> None
          \<longrightarrow> Sidx s = SidxsByFrag s ! 0 ! 0)"
proof -
  from run_calls_sidx_inv [OF sidx_inv_empty, of styp cs]
  obtain s where s: "run_calls (NewMediaSegmentWithStyp styp) cs = Inr s" "sidx_inv s"
    by blast
  from s(2) have f: "Sidx s = first_sidx (concat (SidxsByFrag s))"
    by (simp add: sidx_inv_def)
  with s(1) first_sidx_bucket0 [of "SidxsByFrag s"] show ?thesis by auto
qed

theorem C6_first_sidx_witness:
  "\<exists>s. run_calls (NewMediaSegmentWithStyp None)
          [CallAddSidx (Some 3), CallAddSidx (Some 4),
           CallAddFragment \<lparr>SequenceNumber = 1, TrackID = 1,
              FragEncOptimize = OptimizeNone, Samples = []\<rparr>,
           CallAddSidx (Some 5)] = Inr s \<and>
       Sidx s = Some 3 \<and> SidxsByFrag s = [[Some 3, Some 4], [Some 5]] \<and>
       Sidx s = SidxsByFrag s ! 0 ! 0"
  using C6_first_sidx [of None
          "[CallAddSidx (Some 3), CallAddSidx (Some 4),
            CallAddFragment \<lparr>SequenceNumber = 1, TrackID = 1,
              FragEncOptimize = OptimizeNone, Samples = []\<rparr>,
            CallAddSidx (Some 5)]"]
  by (simp add: NewMediaSegmentWithStyp_def AddFragment_def AddSidx_def Let_def)

section \<open>The traversals visit the boxes in the spec's order\<close>

lemma frag_boxes_Nil: "frag_boxes sbf i [] = []"
  by (simp add: frag_boxes_def)

lemma frag_boxes_Cons:
  "frag_boxes sbf i (f # fs) = map SidxBox (sbf ! i) @ FragmentBox f # frag_boxes sbf (Suc i) fs"
  by (simp add: frag_boxes_def)

lemma run_boxes_append:
  "run_boxes op (as @ bs) w =
     (case run_boxes op as w of (Some e, w') \<Rightarrow> (Some e, w') | (None, w') \<Rightarrow> run_boxes op bs w')"
  by (induction as arbitrary: w) (auto split: prod.splits option.splits)

lemma size_sidxs_sum:
  "size_sidxs ops ps sz = sz + sum_list (map (box_size ops) (map SidxBox ps))"
  by (induction ps arbitrary: sz) (simp_all add: add.assoc)

lemma size_frags_sum:
  "i + length fs \<le> length sbf \<Longrightarrow>
   size_frags ops sbf i fs sz = Inr (sz + sum_list (map (box_size ops) (frag_boxes sbf i fs)))"
proof (induction fs arbitrary: i sz)
  case Nil
  then show ?case by (simp add: frag_boxes_Nil)
next
  case (Cons f fs)
  from Cons.prems have i: "i < length sbf" and r: "Suc i + length fs \<le> length sbf" by simp_all
  show ?case
    by (simp add: i Cons.IH [OF r] frag_boxes_Cons size_sidxs_sum add.assoc)
qed

lemma size_frags_panic:
  "fs \<noteq> [] \<Longrightarrow> length sbf < i + length fs \<Longrightarrow>
   size_frags ops sbf i fs sz = Inl (RuntimePanic ''index out of range'')"
proof (induction fs arbitrary: i sz)
  case Nil
  then show ?case by simp
next
  case (Cons f fs)
  show ?case
  proof (cases "i < length sbf")
    case False
    then show ?thesis by simp
  next
    case True
    with Cons.prems have ne: "fs \<noteq> []" by (cases fs) auto
    from Cons.prems have "length sbf < Suc i + length fs" by simp
    from Cons.IH [OF ne this] True show ?thesis by simp
  qed
qed

lemma encode_sidxs_run:
  "encode_sidxs ops ps w = run_boxes (box_write ops) (map SidxBox ps) w"
  by (induction ps arbitrary: w) (auto split: prod.splits option.splits)

lemma encode_frags_run:
  "i + length fs \<le> length sbf \<Longrightarrow> encode_frags ops sbf eo i fs w = (r, fs', w') \<Longrightarrow>
   run_boxes (box_write ops)
     (frag_boxes sbf i (map (\<lambda>f. f\<lparr>FragEncOptimize := eo\<rparr>) fs)) w = (r, w')"
proof (induction fs arbitrary: i w r fs' w')
  case Nil
  then show ?case by (simp add: frag_boxes_Nil)
next
  case (Cons f fs)
  from Cons.prems have i: "i < length sbf" and l: "Suc i + length fs \<le> length sbf" by simp_all
  show ?case
    using Cons.prems(2) Cons.IH [OF l]
    by (auto simp: i frag_boxes_Cons run_boxes_append encode_sidxs_run Let_def
        split: prod.splits option.splits)
qed

lemma encode_frags_flags:
  "encode_frags ops sbf eo i fs w = (r, fs', w') \<Longrightarrow>
   \<exists>n\<le>length fs. fs' = map (\<lambda>f. f\<lparr>FragEncOptimize := eo\<rparr>) (take n fs) @ drop n fs \<and>
     (r = None \<longrightarrow> n = length fs)"
proof (induction fs arbitrary: i w r fs' w')
  case Nil
  then show ?case by simp
next
  case (Cons f fs)
  let ?P = "\<lambda>n. n \<le> length (f # fs) \<and>
     fs' = map (\<lambda>f. f\<lparr>FragEncOptimize := eo\<rparr>) (take n (f # fs)) @ drop n (f # fs) \<and>
     (r = None \<longrightarrow> n = length (f # fs))"
  show ?case
  proof (cases "i < length sbf")
    case False
    with Cons.prems have "?P 0" by auto
    then show ?thesis by blast
  next
    case True
    obtain r1 w1 where s: "encode_sidxs ops (sbf ! i) w = (r1, w1)" by (cases "encode_sidxs ops (sbf ! i) w")
    show ?thesis
    proof (cases r1)
      case (Some e)
      with Cons.prems True s have "?P 0" by auto
      then show ?thesis by blast
    next
      case None
      obtain r2 w2 where e: "FragWrite ops (f\<lparr>FragEncOptimize := eo\<rparr>) w1 = (r2, w2)"
        by (cases "FragWrite ops (f\<lparr>FragEncOptimize := eo\<rparr>) w1")
      show ?thesis
      proof (cases r2)
        case (Some e2)
        with Cons.prems True s None e have "?P 1" by auto
        then show ?thesis by blast
      next
        case n2: None
        obtain r3 fs3 w3 where rec: "encode_frags ops sbf eo (Suc i) fs w2 = (r3, fs3, w3)"
          by (cases "encode_frags ops sbf eo (Suc i) fs w2")
        from Cons.IH [OF rec] obtain n where
          n: "n \<le> length fs" "fs3 = map (\<lambda>f. f\<lparr>FragEncOptimize := eo\<rparr>) (take n fs) @ drop n fs"
             "r3 = None \<longrightarrow> n = length fs" by blast
        from Cons.prems True s None e n2 rec
        have "r = r3" "fs' = f\<lparr>FragEncOptimize := eo\<rparr> # fs3" by simp_all
        with n have "?P (Suc n)" by simp
        then show ?thesis by blast
      qed
    qed
  qed
qed

lemma encode_frags_ok_len:
  "encode_frags ops sbf eo i fs w = (None, fs', w') \<Longrightarrow> fs \<noteq> [] \<Longrightarrow> i + length fs \<le> length sbf"
proof (induction fs arbitrary: i w fs' w')
  case Nil
  then show ?case by simp
next
  case (Cons f fs)
  note p = Cons.prems(1) and IH = Cons.IH
  from p have i: "i < length sbf" by (auto split: if_splits)
  show ?case
  proof (cases "fs = []")
    case True
    with i show ?thesis by simp
  next
    case ne: False
    from p i obtain w2 fs3 w3 where
      "encode_frags ops sbf eo (Suc i) fs w2 = (None, fs3, w3)"
      by (auto simp: Let_def split: prod.splits option.splits)
    from IH [OF this ne] show ?thesis by simp
  qed
qed



lemma boxes_in_order_project:
  "boxes_in_order (project_flags s) =
     (case Styp s of None \<Rightarrow> [] | Some styp \<Rightarrow> [StypBox styp]) @
     frag_boxes (SidxsByFrag s) 0 (map (\<lambda>f. f\<lparr>FragEncOptimize := EncOptimize s\<rparr>) (Fragments s))"
  by (simp add: boxes_in_order_def project_flags_def)

lemma Encode_run:
  assumes "length (Fragments s) \<le> length (SidxsByFrag s)" "Encode ops s w = (r, s', w')"
  shows "run_boxes (box_write ops) (boxes_in_order (project_flags s)) w = (r, w')"
proof (cases "Styp s")
  case None
  with assms(2) obtain fs where
    "encode_frags ops (SidxsByFrag s) (EncOptimize s) 0 (Fragments s) w = (r, fs, w')"
    by (auto simp: Encode_def split: prod.splits)
  from encode_frags_run [OF _ this] assms(1) None show ?thesis
    by (simp add: boxes_in_order_project)
next
  case (Some a)
  obtain r1 w1 where a: "StypWrite ops a w = (r1, w1)" by (cases "StypWrite ops a w")
  show ?thesis
  proof (cases r1)
    case e: (Some e)
    with assms(2) Some a show ?thesis
      by (auto simp: Encode_def boxes_in_order_project)
  next
    case None
    with assms(2) Some a obtain fs where
      "encode_frags ops (SidxsByFrag s) (EncOptimize s) 0 (Fragments s) w1 = (r, fs, w')"
      by (auto simp: Encode_def split: prod.splits)
    from encode_frags_run [OF _ this] assms(1) None Some a show ?thesis
      by (simp add: boxes_in_order_project)
  qed
qed

lemma EncodeSW_Encode: "EncodeSW ops s w = Encode ops s w"
  by (simp add: EncodeSW_def Encode_def)




lemma Encode_frame:
  assumes "Encode ops s w = (r, s', w')"
  shows "s' = s\<lparr>Fragments := Fragments s'\<rparr> \<and>
         length (Fragments s') = length (Fragments s) \<and>
         (\<forall>i<length (Fragments s).
            Fragments s' ! i = Fragments s ! i \<or>
            Fragments s' ! i = (Fragments s ! i)\<lparr>FragEncOptimize := EncOptimize s\<rparr>) \<and>
         (r = None \<longrightarrow> s' = project_flags s)"
proof -
  let ?p = "\<lambda>f. f\<lparr>FragEncOptimize := EncOptimize s\<rparr>"
  have "\<exists>n\<le>length (Fragments s). s' = s\<lparr>Fragments := map ?p (take n (Fragments s)) @ drop n (Fragments s)\<rparr>
          \<and> (r = None \<longrightarrow> n = length (Fragments s))"
  proof (cases "\<exists>e w1. (case Styp s of None \<Rightarrow> (None, w) | Some styp \<Rightarrow> StypWrite ops styp w) = (Some e, w1)")
    case True
    with assms have "s' = s" "r \<noteq> None" by (auto simp: Encode_def)
    then have "0 \<le> length (Fragments s) \<and> s' = s\<lparr>Fragments := map ?p (take 0 (Fragments s)) @ drop 0 (Fragments s)\<rparr>
          \<and> (r = None \<longrightarrow> 0 = length (Fragments s))" by auto
    then show ?thesis by blast
  next
    case False
    then obtain w1 where "(case Styp s of None \<Rightarrow> (None, w) | Some styp \<Rightarrow> StypWrite ops styp w) = (None, w1)"
      by (metis option.exhaust surj_pair)
    with assms obtain fs where
      e: "encode_frags ops (SidxsByFrag s) (EncOptimize s) 0 (Fragments s) w1 = (r, fs, w')"
      and s': "s' = s\<lparr>Fragments := fs\<rparr>"
      by (auto simp: Encode_def split: prod.splits)
    from encode_frags_flags [OF e] s' show ?thesis by auto
  qed
  then obtain n where n: "n \<le> length (Fragments s)"
    "s' = s\<lparr>Fragments := map ?p (take n (Fragments s)) @ drop n (Fragments s)\<rparr>"
    "r = None \<longrightarrow> n = length (Fragments s)" by blast
  have f: "Fragments s' = map ?p (take n (Fragments s)) @ drop n (Fragments s)"
    by (simp add: n(2))
  have 1: "s' = s\<lparr>Fragments := Fragments s'\<rparr>" by (simp only: f) (rule n(2))
  have 2: "length (Fragments s') = length (Fragments s)" using n(1) by (simp add: n(2))
  have 3: "\<forall>i<length (Fragments s).
            Fragments s' ! i = Fragments s ! i \<or>
            Fragments s' ! i = (Fragments s ! i)\<lparr>FragEncOptimize := EncOptimize s\<rparr>"
    using n(1) by (auto simp: n(2) nth_append)
  have 4: "r = None \<longrightarrow> s' = project_flags s"
    using n(3) by (auto simp: n(2) project_flags_def)
  from 1 2 3 4 show ?thesis by blast
qed

section \<open>Size against the bytes written, errors, and the optimization flag\<close>

lemma unat_sum_list_u64:
  "unat (sum_list (ws :: u64 list)) = sum_list (map unat ws) mod 2 ^ 64"
proof (induction ws)
  case Nil
  then show ?case by simp
next
  case (Cons x ws)
  have "unat (x + sum_list ws) = (unat x + unat (sum_list ws)) mod 2 ^ 64"
    by (simp add: unat_word_ariths)
  also have "\<dots> = (unat x + sum_list (map unat ws) mod 2 ^ 64) mod 2 ^ 64"
    by (simp only: Cons.IH)
  also have "\<dots> = (unat x + sum_list (map unat ws)) mod 2 ^ 64"
    by (rule mod_add_right_eq)
  finally show ?case by simp
qed

lemma run_boxes_written:
  assumes "run_boxes op bs w = (None, w')"
    and "\<forall>b\<in>set bs. \<forall>w1 w2. op b w1 = (None, w2) \<longrightarrow> written w2 = written w1 + unat (sz b)"
  shows "written w' = written w + sum_list (map (\<lambda>b. unat (sz b)) bs)"
  using assms
proof (induction bs arbitrary: w)
  case Nil
  then show ?case by simp
next
  case (Cons b bs)
  obtain r1 w1 where b: "op b w = (r1, w1)" by (cases "op b w")
  with Cons.prems(1) have r1: "r1 = None" and rest: "run_boxes op bs w1 = (None, w')"
    by (auto split: option.splits)
  from Cons.prems(2) b r1 have 1: "written w1 = written w + unat (sz b)" by simp
  from Cons.prems(2) have "\<forall>b\<in>set bs. \<forall>w1 w2. op b w1 = (None, w2) \<longrightarrow> written w2 = written w1 + unat (sz b)"
    by simp
  from Cons.IH [OF rest this] 1 show ?case by simp
qed

lemma Size_sum:
  "length (Fragments s) \<le> length (SidxsByFrag s) \<Longrightarrow>
   Size ops s = Inr (sum_list (map (box_size ops) (boxes_in_order s)))"
  by (cases "Styp s") (simp_all add: Size_def boxes_in_order_def size_frags_sum)

lemma Encode_ok_len:
  assumes "Encode ops s w = (None, s', w')"
  shows "length (Fragments s) \<le> length (SidxsByFrag s)"
proof (cases "Fragments s = []")
  case True
  then show ?thesis by simp
next
  case False
  from assms obtain w1 fs where
    "encode_frags ops (SidxsByFrag s) (EncOptimize s) 0 (Fragments s) w1 = (None, fs, w')"
    by (auto simp: Encode_def split: prod.splits option.splits)
  from encode_frags_ok_len [OF this False] show ?thesis by simp
qed

text \<open>
  C7, as the claim states it, fails. Every box of the example writes exactly as many
  bytes as its size says (third conjunct), yet \<open>Size\<close> is 268 where \<open>EncodeSW\<close>
  writes 228 bytes: \<open>Size\<close> measures the fragments under the flags they carry,
  \<open>EncodeSW\<close> first sets them to the segment's \<open>EncOptimize\<close>.
\<close>

theorem C7_counterexample:
  "Size demo_sizes demo_segment = Inr 268 \<and>
   EncodeSW demo_writes demo_segment 0 = (None, project_flags demo_segment, 228) \<and>
   (\<forall>b w. box_write demo_writes b w = (None, w + unat (box_size demo_sizes b)))"
proof -
  have "box_write demo_writes b w = (None, w + unat (box_size demo_sizes b))" for b w
    by (cases b) (simp_all add: demo_writes_def demo_sizes_def)
  then show ?thesis
    by (simp add: Size_def EncodeSW_def demo_sizes_def demo_writes_def demo_segment_def
        demo_fragment_def project_flags_def)
qed

text \<open>
  C7, amended. \<open>Size\<close> is a function of the segment (it returns no state, so two
  calls on the same segment agree). When \<open>EncodeSW\<close> returns without error and every
  box it visited wrote as many bytes as its size says, then \<open>EncodeSW\<close> has visited
  the boxes of the segment it leaves (the given one with the flags set) in the spec's
  order, \<open>Size\<close> of that segment is the sum of the sizes of the same boxes in the same
  order, and it equals the number of bytes written, as a \<open>uint64\<close> (modulo
  \<open>2 ^ 64\<close>). When every fragment carried the segment's \<open>EncOptimize\<close> already, that
  segment is the given one. \<open>written\<close> reads the position of the writer.
\<close>

theorem C7_size_after_encode:
  assumes enc: "EncodeSW wops s sw = (None, s', sw')"
    and sz: "\<forall>b\<in>set (boxes_in_order s'). \<forall>w1 w2.
               box_write wops b w1 = (None, w2) \<longrightarrow>
               written w2 = written w1 + unat (box_size sops b)"
  shows "s' = project_flags s \<and>
         run_boxes (box_write wops) (boxes_in_order s') sw = (None, sw') \<and>
         Size sops s' = Inr (sum_list (map (box_size sops) (boxes_in_order s'))) \<and>
         written sw \<le> written sw' \<and>
         (\<exists>n. Size sops s' = Inr n \<and> unat n = (written sw' - written sw) mod 2 ^ 64) \<and>
         ((\<forall>f\<in>set (Fragments s). FragEncOptimize f = EncOptimize s) \<longrightarrow> s' = s)"
proof -
  from enc have e: "Encode wops s sw = (None, s', sw')" by (simp only: EncodeSW_Encode)
  from Encode_frame [OF e] have s': "s' = project_flags s" by simp
  from Encode_ok_len [OF e] have len: "length (Fragments s) \<le> length (SidxsByFrag s)" .
  then have len': "length (Fragments s') \<le> length (SidxsByFrag s')"
    by (simp add: s' project_flags_def)
  from Encode_run [OF len e] have run: "run_boxes (box_write wops) (boxes_in_order s') sw = (None, sw')"
    by (simp only: s')
  note size = Size_sum [OF len', of sops]
  from run_boxes_written [OF run sz]
  have w: "written sw' = written sw + sum_list (map (\<lambda>b. unat (box_size sops b)) (boxes_in_order s'))" .
  have "unat (sum_list (map (box_size sops) (boxes_in_order s'))) = (written sw' - written sw) mod 2 ^ 64"
    by (simp add: unat_sum_list_u64 w comp_def)
  with size have ex: "\<exists>n. Size sops s' = Inr n \<and> unat n = (written sw' - written sw) mod 2 ^ 64"
    by blast
  have same: "(\<forall>f\<in>set (Fragments s). FragEncOptimize f = EncOptimize s) \<longrightarrow> s' = s"
  proof
    assume a: "\<forall>f\<in>set (Fragments s). FragEncOptimize f = EncOptimize s"
    then have "map (\<lambda>f. f\<lparr>FragEncOptimize := EncOptimize s\<rparr>) (Fragments s) = Fragments s"
      by (simp add: map_idI)
    then show "s' = s" by (simp add: s' project_flags_def)
  qed
  from s' run size w ex same show ?thesis by simp
qed

theorem C7_size_after_encode_witness:
  "EncodeSW demo_writes demo_segment 0 = (None, project_flags demo_segment, 228) \<and>
   Size demo_sizes (project_flags demo_segment) = Inr 228 \<and>
   (\<exists>n. Size demo_sizes (project_flags demo_segment) = Inr n \<and> unat n = (228 - 0) mod 2 ^ 64)"
proof -
  have enc: "EncodeSW demo_writes demo_segment 0 = (None, project_flags demo_segment, 228)"
    by (simp add: EncodeSW_def demo_writes_def demo_segment_def demo_fragment_def
        project_flags_def)
  have "box_write demo_writes b w1 = (None, w1 + unat (box_size demo_sizes b))" for b w1
    by (cases b) (simp_all add: demo_writes_def demo_sizes_def)
  then have sz: "\<forall>b\<in>set (boxes_in_order (project_flags demo_segment)). \<forall>w1 w2.
               box_write demo_writes b w1 = (None, w2) \<longrightarrow>
               id w2 = id w1 + unat (box_size demo_sizes b)"
    by simp
  have size: "Size demo_sizes (project_flags demo_segment) = Inr 228"
    by (simp add: Size_def demo_sizes_def demo_segment_def demo_fragment_def project_flags_def)
  from C7_size_after_encode [OF enc sz] enc size show ?thesis by simp
qed




text \<open>
  C9, as the claim states it, fails: the flag stays on the fragment. The segment's
  strategy is \<open>OptimizeTrun\<close>, its two fragments carry \<open>OptimizeNone\<close>; after
  \<open>Encode\<close> has returned without error both fragments carry \<open>OptimizeTrun\<close>.
\<close>

theorem C9_counterexample:
  "Encode demo_writes demo_segment 0 =
     (None,
      demo_segment\<lparr>Fragments :=
        [(demo_fragment 1)\<lparr>FragEncOptimize := OptimizeTrun\<rparr>,
         (demo_fragment 2)\<lparr>FragEncOptimize := OptimizeTrun\<rparr>]\<rparr>,
      228) \<and>
   FragEncOptimize (demo_fragment 1) = OptimizeNone \<and>
   (demo_fragment 1)\<lparr>FragEncOptimize := OptimizeTrun\<rparr> \<noteq> demo_fragment 1"
  by (simp add: Encode_def demo_writes_def demo_segment_def demo_fragment_def)

text \<open>
  C9, amended. \<open>Encode\<close> and \<open>EncodeSW\<close> write the segment's \<open>EncOptimize\<close>
  into the flag of each fragment they reach, and the flag stays there: after a return
  without error every fragment carries the segment's \<open>EncOptimize\<close>
  (\<open>project_flags\<close>); after a return with an error each fragment carries its old flag
  or the segment's. Nothing else changes: the returned segment is the given one but for
  its fragments, and a fragment changes in its flag only.
\<close>

theorem C9_flag_persists:
  "(Encode ops s w = (r, s', w') \<longrightarrow>
      s' = s\<lparr>Fragments := Fragments s'\<rparr> \<and>
      length (Fragments s') = length (Fragments s) \<and>
      (\<forall>i<length (Fragments s).
         Fragments s' ! i = Fragments s ! i \<or>
         Fragments s' ! i = (Fragments s ! i)\<lparr>FragEncOptimize := EncOptimize s\<rparr>) \<and>
      (r = None \<longrightarrow> s' = project_flags s)) \<and>
   (EncodeSW ops2 s sw = (r2, s2, sw') \<longrightarrow>
      s2 = s\<lparr>Fragments := Fragments s2\<rparr> \<and>
      length (Fragments s2) = length (Fragments s) \<and>
      (\<forall>i<length (Fragments s).
         Fragments s2 ! i = Fragments s ! i \<or>
         Fragments s2 ! i = (Fragments s ! i)\<lparr>FragEncOptimize := EncOptimize s\<rparr>) \<and>
      (r2 = None \<longrightarrow> s2 = project_flags s))"
  using Encode_frame [of ops s w r s' w'] Encode_frame [of ops2 s sw r2 s2 sw']
  by (simp only: EncodeSW_Encode) blast

theorem C9_flag_persists_witness:
  "Encode demo_writes demo_segment 0 = (None, project_flags demo_segment, 228) \<and>
   EncodeSW demo_writes demo_segment 0 = (None, project_flags demo_segment, 228) \<and>
   Fragments (project_flags demo_segment) =
     [(demo_fragment 1)\<lparr>FragEncOptimize := OptimizeTrun\<rparr>,
      (demo_fragment 2)\<lparr>FragEncOptimize := OptimizeTrun\<rparr>]"
  using C9_flag_persists [of demo_writes demo_segment 0 None "project_flags demo_segment" 228
          demo_writes 0 None "project_flags demo_segment" 228]
  by (simp add: Encode_def EncodeSW_def demo_writes_def demo_segment_def demo_fragment_def
        project_flags_def)

section \<open>The common sample duration\<close>



lemma show_nat_2: "show_nat (Suc (Suc 0)) = ''2''"
  by (simp add: show_nat.simps)

text \<open>
  C4. With a non-nil \<open>trex\<close>: on a segment whose fragments report the common sample
  durations 1024, 1024, 1024, \<open>CommonSampleDuration\<close> returns 1024 and no error; on a
  segment whose fragments report 1024, 2048 it returns the error
  \<open>different common sample duration in fragment 2\<close>, which counts fragments from 1.
\<close>

theorem C4_duration_validation:
  assumes "trex \<noteq> None"
  shows "(map (\<lambda>f. FragCommonSampleDuration ops f trex) (Fragments s1) =
            [Inr 1024, Inr 1024, Inr 1024] \<longrightarrow>
          CommonSampleDuration ops s1 trex = Inr 1024) \<and>
         (map (\<lambda>f. FragCommonSampleDuration ops f trex) (Fragments s2) =
            [Inr 1024, Inr 2048] \<longrightarrow>
          CommonSampleDuration ops s2 trex =
            Inl (Errorf ''different common sample duration in fragment 2''))"
proof (intro conjI impI)
  assume "map (\<lambda>f. FragCommonSampleDuration ops f trex) (Fragments s1) =
            [Inr 1024, Inr 1024, Inr 1024]"
  then obtain f1 f2 f3 where "Fragments s1 = [f1, f2, f3]"
    "FragCommonSampleDuration ops f1 trex = Inr 1024"
    "FragCommonSampleDuration ops f2 trex = Inr 1024"
    "FragCommonSampleDuration ops f3 trex = Inr 1024"
    by (auto simp: map_eq_Cons_conv)
  with assms show "CommonSampleDuration ops s1 trex = Inr 1024"
    by (simp add: CommonSampleDuration_def)
next
  assume "map (\<lambda>f. FragCommonSampleDuration ops f trex) (Fragments s2) =
            [Inr 1024, Inr 2048]"
  then obtain f1 f2 where "Fragments s2 = [f1, f2]"
    "FragCommonSampleDuration ops f1 trex = Inr 1024"
    "FragCommonSampleDuration ops f2 trex = Inr 2048"
    by (auto simp: map_eq_Cons_conv)
  with assms show "CommonSampleDuration ops s2 trex =
            Inl (Errorf ''different common sample duration in fragment 2'')"
    by (simp add: CommonSampleDuration_def show_nat_2)
qed

theorem C4_duration_validation_witness:
  "CommonSampleDuration demo_frag_ops
     (NewMediaSegmentWithStyp None\<lparr>Fragments :=
        [demo_input 1 [1024], demo_input 2 [1024], demo_input 3 [1024]]\<rparr>) (Some 1) = Inr 1024 \<and>
   CommonSampleDuration demo_frag_ops
     (NewMediaSegmentWithStyp None\<lparr>Fragments :=
        [demo_input 1 [1024], demo_input 2 [2048]]\<rparr>) (Some 1) =
     Inl (Errorf ''different common sample duration in fragment 2'')"
proof -
  have t: "Some (1::nat) \<noteq> None" by simp
  show ?thesis
    using C4_duration_validation [OF t, of demo_frag_ops
        "NewMediaSegmentWithStyp None\<lparr>Fragments :=
           [demo_input 1 [1024], demo_input 2 [1024], demo_input 3 [1024]]\<rparr>"
        "NewMediaSegmentWithStyp None\<lparr>Fragments :=
           [demo_input 1 [1024], demo_input 2 [2048]]\<rparr>"]
    by (simp add: demo_frag_ops_def demo_input_def demo_sample_def)
qed




text \<open>
  C10. On a segment with no fragment and with a non-nil \<open>trex\<close>,
  \<open>CommonSampleDuration\<close> returns the duration 0 and no error; it does not panic.
\<close>

theorem C10_empty_segment:
  "Fragments s = [] \<Longrightarrow> trex \<noteq> None \<Longrightarrow> CommonSampleDuration ops s trex = Inr 0"
  by (simp add: CommonSampleDuration_def)

theorem C10_empty_segment_witness:
  "Fragments (NewMediaSegmentWithStyp (Some 1)) = [] \<and> Some (2::nat) \<noteq> None \<and>
   CommonSampleDuration demo_frag_ops (NewMediaSegmentWithStyp (Some 1)) (Some 2) = Inr 0"
  using C10_empty_segment [of "NewMediaSegmentWithStyp (Some 1)" "Some 2" demo_frag_ops]
  by (simp add: NewMediaSegmentWithStyp_def)

section \<open>Fragmentify\<close>

lemma concat_samples_add_last:
  "outs \<noteq> [] \<Longrightarrow>
   concat (map Samples (butlast outs @ [(last outs)\<lparr>Samples := Samples (last outs) @ [x]\<rparr>])) =
   concat (map Samples outs) @ [x]"
proof -
  assume "outs \<noteq> []"
  then obtain ys y where "outs = ys @ [y]" by (metis append_butlast_last_id)
  then show ?thesis by simp
qed

lemma CreateFragment_Inr:
  "CreateFragment ops n t = Inr f \<Longrightarrow> Samples f = []"
  by (auto simp: CreateFragment_def split: option.splits)

lemma AddFullSampleToTrack_Inr:
  "AddFullSampleToTrack ops f smp t = Inr f' \<Longrightarrow> f' = f\<lparr>Samples := Samples f @ [(t, smp)]\<rparr>"
  by (auto simp: AddFullSampleToTrack_def split: option.splits)

text \<open>One turn of the inner loop that does not fail.\<close>

lemma fragmentify_samples_step:
  assumes "fragmentify_samples ops inFrag tid D (smp # ss) outs cum = Inr res"
  shows "\<exists>outs1. (if cum = 0 then \<exists>new. Samples new = [] \<and> outs1 = outs @ [new] else outs1 = outs) \<and>
           outs1 \<noteq> [] \<and>
           fragmentify_samples ops inFrag tid D ss
             (butlast outs1 @ [(last outs1)\<lparr>Samples := Samples (last outs1) @ [(tid, smp)]\<rparr>])
             (if cum + Dur smp \<ge> D then 0 else cum + Dur smp) = Inr res"
proof (cases "cum = 0")
  case True
  from assms True obtain new where n: "CreateFragment ops (SequenceNumber inFrag) tid = Inr new"
    by (auto split: sum.splits)
  from assms True n obtain f' where
    a: "AddFullSampleToTrack ops new smp tid = Inr f'"
    by (auto split: sum.splits)
  from assms True n a AddFullSampleToTrack_Inr [OF a] CreateFragment_Inr [OF n]
  have "Samples new = [] \<and> outs @ [new] \<noteq> [] \<and>
     fragmentify_samples ops inFrag tid D ss
       (butlast (outs @ [new]) @ [(last (outs @ [new]))\<lparr>Samples := Samples (last (outs @ [new])) @ [(tid, smp)]\<rparr>])
       (if cum + Dur smp \<ge> D then 0 else cum + Dur smp) = Inr res"
    by (auto simp: Let_def)
  with True show ?thesis by auto
next
  case False
  from assms False have ne: "outs \<noteq> []" by (auto split: if_splits)
  from assms False ne obtain f' where
    a: "AddFullSampleToTrack ops (last outs) smp tid = Inr f'"
    by (auto split: sum.splits)
  from assms False ne a AddFullSampleToTrack_Inr [OF a]
  have "fragmentify_samples ops inFrag tid D ss
       (butlast outs @ [(last outs)\<lparr>Samples := Samples (last outs) @ [(tid, smp)]\<rparr>])
       (if cum + Dur smp \<ge> D then 0 else cum + Dur smp) = Inr res"
    by (simp add: Let_def)
  with False ne show ?thesis by auto
qed

lemma fragmentify_samples_conserve:
  "fragmentify_samples ops inFrag tid D ss outs cum = Inr (outs', cum') \<Longrightarrow>
   concat (map Samples outs') = concat (map Samples outs) @ map (\<lambda>smp. (tid, smp)) ss"
proof (induction ss arbitrary: outs cum)
  case Nil
  then show ?case by simp
next
  case (Cons smp ss)
  from fragmentify_samples_step [OF Cons.prems] obtain outs1 where
    o: "if cum = 0 then \<exists>new. Samples new = [] \<and> outs1 = outs @ [new] else outs1 = outs"
    and ne: "outs1 \<noteq> []"
    and r: "fragmentify_samples ops inFrag tid D ss
             (butlast outs1 @ [(last outs1)\<lparr>Samples := Samples (last outs1) @ [(tid, smp)]\<rparr>])
             (if cum + Dur smp \<ge> D then 0 else cum + Dur smp) = Inr (outs', cum')"
    by blast
  from o have c: "concat (map Samples outs1) = concat (map Samples outs)"
    by (auto split: if_splits)
  from Cons.IH [OF r]
  have "concat (map Samples outs') =
      (concat (map Samples outs1) @ [(tid, smp)]) @ map (\<lambda>smp. (tid, smp)) ss"
    by (simp only: concat_samples_add_last [OF ne])
  then show ?case by (simp add: c)
qed

lemma fragmentify_frags_conserve:
  "fragmentify_frags ops trex D ins outs cum = Inr (outs', cum') \<Longrightarrow>
   concat (map Samples outs') = concat (map Samples outs) @ concat (map (extracted ops trex) ins) \<and>
   (\<forall>f\<in>set ins. \<exists>ss. GetFullSamples ops f trex = Inr ss)"
proof (induction ins arbitrary: outs cum)
  case Nil
  then show ?case by simp
next
  case (Cons f ins)
  from Cons.prems obtain ss outs1 cum1 where
    g: "GetFullSamples ops f trex = Inr ss"
    and s: "fragmentify_samples ops f (TrackID f) D ss outs cum = Inr (outs1, cum1)"
    and r: "fragmentify_frags ops trex D ins outs1 cum1 = Inr (outs', cum')"
    by (auto simp: Let_def split: sum.splits)
  from fragmentify_samples_conserve [OF s] Cons.IH [OF r] g show ?case
    by (simp add: extracted_def)
qed

lemma unat_add_le_u32: "unat (a + b :: u32) \<le> unat a + unat b"
  by (simp add: unat_word_ariths)

lemma unat_lt_u32: "unat (a :: u32) < 2 ^ 32"
  using unsigned_less [of a, where 'a = nat] by simp

lemma unat_add_wrap_u32:
  assumes "a \<noteq> 0" "a + b = (0 :: u32)"
  shows "2 ^ 32 \<le> unat a + unat b"
proof (rule ccontr)
  assume "\<not> 2 ^ 32 \<le> unat a + unat b"
  then have lt: "unat a + unat b < 2 ^ 32" by simp
  have "unat (a + b) = (unat a + unat b) mod 2 ^ 32"
    by (simp add: unat_word_ariths)
  with lt have "unat (a + b) = unat a + unat b" by simp
  with assms(2) have "unat a = 0" by simp
  with assms(1) show False by (simp add: unat_0_iff)
qed

lemma total_dur_add:
  "total_dur (f\<lparr>Samples := Samples f @ [(t, smp)]\<rparr>) = total_dur f + unat (Dur smp)"
  by (simp add: total_dur_def)

lemma list_all_butlast_last:
  "list_all P (butlast xs) \<Longrightarrow> xs = [] \<or> P (last xs) \<Longrightarrow> list_all P xs"
  by (cases xs rule: rev_cases) auto

lemma frag_inv_new:
  assumes "frag_inv D outs 0" "Samples new = []"
  shows "frag_inv D (outs @ [new\<lparr>Samples := [(t, smp)]\<rparr>]) (if Dur smp \<ge> D then 0 else Dur smp)"
proof -
  let ?f = "new\<lparr>Samples := [(t, smp)]\<rparr>"
  from assms(1) have ne: "list_all (\<lambda>f. Samples f \<noteq> []) outs"
    and cl: "list_all (closed D) outs"
    by (auto simp: frag_inv_def intro: list_all_butlast_last)
  have td: "total_dur ?f = unat (Dur smp)" by (simp add: total_dur_def)
  have 1: "list_all (\<lambda>f. Samples f \<noteq> []) (outs @ [?f])" using ne by simp
  have 2: "list_all (closed D) (butlast (outs @ [?f]))" using cl by simp
  show ?thesis
  proof (cases "Dur smp \<ge> D")
    case True
    then have "closed D ?f" by (simp add: closed_def td word_le_nat_alt)
    with 1 2 True show ?thesis by (simp add: frag_inv_def)
  next
    case False
    show ?thesis
    proof (cases "Dur smp = 0")
      case True
      then have "closed D ?f" by (simp add: closed_def)
      with 1 2 False True show ?thesis by (simp add: frag_inv_def)
    next
      case nz: False
      with 1 2 False td show ?thesis by (simp add: frag_inv_def)
    qed
  qed
qed

lemma frag_inv_add:
  assumes "frag_inv D outs cum" "cum \<noteq> 0"
  shows "frag_inv D (butlast outs @ [(last outs)\<lparr>Samples := Samples (last outs) @ [(t, smp)]\<rparr>])
           (if cum + Dur smp \<ge> D then 0 else cum + Dur smp)"
proof -
  let ?f = "(last outs)\<lparr>Samples := Samples (last outs) @ [(t, smp)]\<rparr>"
  from assms have ne: "list_all (\<lambda>f. Samples f \<noteq> []) outs"
    and cl: "list_all (closed D) (butlast outs)"
    and o: "outs \<noteq> []" and le: "unat cum \<le> total_dur (last outs)"
    by (auto simp: frag_inv_def)
  have td: "total_dur ?f = total_dur (last outs) + unat (Dur smp)" by (rule total_dur_add)
  from ne have "list_all (\<lambda>f. Samples f \<noteq> []) (butlast outs)"
    by (metis append_butlast_last_id list_all_append o)
  then have 1: "list_all (\<lambda>f. Samples f \<noteq> []) (butlast outs @ [?f])" by simp
  have 2: "list_all (closed D) (butlast (butlast outs @ [?f]))" using cl by simp
  have up: "unat (cum + Dur smp) \<le> total_dur ?f"
    using unat_add_le_u32 [of cum "Dur smp"] le td by simp
  show ?thesis
  proof (cases "cum + Dur smp \<ge> D")
    case True
    then have "unat D \<le> unat (cum + Dur smp)" by (simp add: word_le_nat_alt)
    with up have "closed D ?f" by (simp add: closed_def)
    with 1 2 True show ?thesis by (simp add: frag_inv_def)
  next
    case False
    show ?thesis
    proof (cases "cum + Dur smp = 0")
      case True
      from unat_add_wrap_u32 [OF assms(2) True] le td
      have "2 ^ 32 \<le> total_dur ?f" by simp
      moreover have "unat D < 2 ^ 32" by (rule unat_lt_u32)
      ultimately have "closed D ?f" by (simp add: closed_def)
      with 1 2 False True show ?thesis by (simp add: frag_inv_def)
    next
      case nz: False
      with 1 2 False up show ?thesis by (simp add: frag_inv_def)
    qed
  qed
qed

lemma fragmentify_samples_inv:
  "fragmentify_samples ops inFrag tid D ss outs cum = Inr (outs', cum') \<Longrightarrow>
   frag_inv D outs cum \<Longrightarrow> frag_inv D outs' cum'"
proof (induction ss arbitrary: outs cum)
  case Nil
  then show ?case by simp
next
  case (Cons smp ss)
  from fragmentify_samples_step [OF Cons.prems(1)] obtain outs1 where
    o: "if cum = 0 then \<exists>new. Samples new = [] \<and> outs1 = outs @ [new] else outs1 = outs"
    and r: "fragmentify_samples ops inFrag tid D ss
             (butlast outs1 @ [(last outs1)\<lparr>Samples := Samples (last outs1) @ [(tid, smp)]\<rparr>])
             (if cum + Dur smp \<ge> D then 0 else cum + Dur smp) = Inr (outs', cum')"
    by blast
  have "frag_inv D (butlast outs1 @ [(last outs1)\<lparr>Samples := Samples (last outs1) @ [(tid, smp)]\<rparr>])
             (if cum + Dur smp \<ge> D then 0 else cum + Dur smp)"
  proof (cases "cum = 0")
    case True
    with o obtain new where n: "Samples new = []" "outs1 = outs @ [new]" by auto
    from Cons.prems(2) True have "frag_inv D outs 0" by simp
    from frag_inv_new [OF this n(1), of tid smp] True n show ?thesis by auto
  next
    case False
    with o have "outs1 = outs" by simp
    with frag_inv_add [OF Cons.prems(2) False, of tid smp] show ?thesis by simp
  qed
  from Cons.IH [OF r this] show ?case .
qed

lemma fragmentify_frags_inv:
  "fragmentify_frags ops trex D ins outs cum = Inr (outs', cum') \<Longrightarrow>
   frag_inv D outs cum \<Longrightarrow> frag_inv D outs' cum'"
proof (induction ins arbitrary: outs cum)
  case Nil
  then show ?case by simp
next
  case (Cons f ins)
  from Cons.prems(1) obtain ss outs1 cum1 where
    s: "fragmentify_samples ops f (TrackID f) D ss outs cum = Inr (outs1, cum1)"
    and r: "fragmentify_frags ops trex D ins outs1 cum1 = Inr (outs', cum')"
    by (auto simp: Let_def split: sum.splits)
  from Cons.IH [OF r fragmentify_samples_inv [OF s Cons.prems(2)]] show ?case .
qed

text \<open>
  C2, as the claim states it, fails: a sample of duration zero leaves \<open>cumDur\<close> at
  zero, so the next sample opens a new fragment. With the target 10 and samples of
  durations 0 and 5, the first output fragment is not the last and lasts 0.
\<close>

theorem C2_counterexample:
  "Fragmentify demo_frag_ops
     (NewMediaSegmentWithStyp None\<lparr>Fragments := [demo_input 1 [0, 5]]\<rparr>) 1000 (Some 1) 10 =
     Inr [demo_input 1 [0], demo_input 1 [5]] \<and>
   total_dur (demo_input 1 [0]) = 0"
  by (simp add: Fragmentify_def demo_frag_ops_def demo_input_def demo_sample_def
        CreateFragment_def AddFullSampleToTrack_def total_dur_def Let_def)

text \<open>
  C2, amended. When \<open>Fragmentify\<close> succeeds, every output fragment has at least one
  sample, and for every output fragment but the last the durations of its samples sum to
  at least the target duration, unless that fragment is a single sample of duration
  zero. The sum is the sum of natural numbers, not the wrapping \<open>uint32\<close> sum.
\<close>

theorem C2_duration_lower_bound:
  assumes "Fragmentify ops s timescale trex duration = Inr outFragments"
  shows "(\<forall>f\<in>set outFragments. Samples f \<noteq> []) \<and>
         (\<forall>f\<in>set (butlast outFragments).
            unat duration \<le> total_dur f \<or>
            (length (Samples f) = 1 \<and> Dur (snd (hd (Samples f))) = 0))"
proof -
  from assms obtain cum where
    "fragmentify_frags ops trex duration (Fragments s) [] 0 = Inr (outFragments, cum)"
    by (auto simp: Fragmentify_def split: sum.splits)
  from fragmentify_frags_inv [OF this] have "frag_inv duration outFragments cum"
    by (simp add: frag_inv_def)
  then show ?thesis
    by (simp add: frag_inv_def closed_def list_all_iff)
qed

theorem C2_duration_lower_bound_witness:
  "Fragmentify demo_frag_ops
     (NewMediaSegmentWithStyp None\<lparr>Fragments := [demo_input 1 [4, 6, 3, 9, 2]]\<rparr>)
     1000 (Some 1) 10 =
     Inr [demo_input 1 [4, 6], demo_input 1 [3, 9], demo_input 1 [2]] \<and>
   total_dur (demo_input 1 [4, 6]) = 10 \<and> total_dur (demo_input 1 [3, 9]) = 12"
proof -
  have e: "Fragmentify demo_frag_ops
     (NewMediaSegmentWithStyp None\<lparr>Fragments := [demo_input 1 [4, 6, 3, 9, 2]]\<rparr>)
     1000 (Some 1) 10 =
     Inr [demo_input 1 [4, 6], demo_input 1 [3, 9], demo_input 1 [2]]"
    by (simp add: Fragmentify_def demo_frag_ops_def demo_input_def demo_sample_def
        CreateFragment_def AddFullSampleToTrack_def Let_def)
  from C2_duration_lower_bound [OF e] e show ?thesis
    by (simp add: total_dur_def demo_input_def demo_sample_def)
qed

text \<open>
  C3. When \<open>Fragmentify\<close> succeeds, the samples of the output fragments, each with the
  track id it was appended under, read fragment after fragment in order, are the samples
  \<open>GetFullSamples\<close> extracted from the input fragments (extraction succeeded on every
  one), each with the track id of its input fragment, in the original order: none is
  dropped, duplicated or moved.
\<close>

theorem C3_sample_conservation:
  assumes "Fragmentify ops s timescale trex duration = Inr outFragments"
  shows "concat (map Samples outFragments) = concat (map (extracted ops trex) (Fragments s)) \<and>
         (\<forall>f\<in>set (Fragments s). \<exists>samples. GetFullSamples ops f trex = Inr samples)"
proof -
  from assms obtain cum where
    "fragmentify_frags ops trex duration (Fragments s) [] 0 = Inr (outFragments, cum)"
    by (auto simp: Fragmentify_def split: sum.splits)
  from fragmentify_frags_conserve [OF this] show ?thesis by simp
qed

theorem C3_sample_conservation_witness:
  "Fragmentify demo_frag_ops
     (NewMediaSegmentWithStyp None\<lparr>Fragments := [demo_input 1 [4, 6, 3], demo_input 2 [9, 2]]\<rparr>)
     1000 (Some 1) 10 =
     Inr [demo_input 1 [4, 6], demo_input 1 [3, 9], demo_input 2 [2]] \<and>
   concat (map Samples [demo_input 1 [4, 6], demo_input 1 [3, 9], demo_input 2 [2]]) =
     map (\<lambda>d. (1, demo_sample d)) [4, 6, 3, 9, 2]"
proof -
  have e: "Fragmentify demo_frag_ops
     (NewMediaSegmentWithStyp None\<lparr>Fragments := [demo_input 1 [4, 6, 3], demo_input 2 [9, 2]]\<rparr>)
     1000 (Some 1) 10 =
     Inr [demo_input 1 [4, 6], demo_input 1 [3, 9], demo_input 2 [2]]"
    by (simp add: Fragmentify_def demo_frag_ops_def demo_input_def demo_sample_def
        CreateFragment_def AddFullSampleToTrack_def Let_def)
  from C3_sample_conservation [OF e] e show ?thesis
    by (simp add: extracted_def demo_frag_ops_def demo_input_def)
qed

end
